theory Spec2Isabelle
  imports Complex_Main "HOL-Library.Multiset"
begin

section \<open>Time values\<close>

text \<open>
  The script works with \<^verbatim>\<open>datetime\<close> and \<^verbatim>\<open>timedelta\<close> values, whose resolution is one
  microsecond. An aware UTC datetime is the number of microseconds since the epoch, a
  timedelta a number of microseconds, a naive (wall clock) datetime the number of
  microseconds since 1970-01-01T00:00 on that wall clock, a date its ordinal (days since
  1970-01-01) and a time of day the microseconds since midnight.
\<close>

type_synonym instant = int
type_synonym timedelta = int
type_synonym naive = int
type_synonym time_of_day = int

definition seconds :: "int \<Rightarrow> timedelta" where
  "seconds n = n * 1000000"

definition minutes :: "int \<Rightarrow> timedelta" where
  "minutes n = seconds (60 * n)"

definition hours :: "int \<Rightarrow> timedelta" where
  "hours n = minutes (60 * n)"

definition days :: "int \<Rightarrow> timedelta" where
  "days n = hours (24 * n)"

text \<open>
  The local time zone of the machine is outside the repository. It is a parameter: what
  \<^verbatim>\<open>datetime.astimezone()\<close> shows on the wall clock at a UTC instant, and the instant that
  \<^verbatim>\<open>naive.astimezone(timezone.utc)\<close> assigns to a wall clock reading.
\<close>

record zone =
  utc_to_local :: "instant \<Rightarrow> naive"
  local_to_utc :: "naive \<Rightarrow> instant"

definition fixed_zone :: "timedelta \<Rightarrow> zone" where
  "fixed_zone off = \<lparr>utc_to_local = (\<lambda>u. u + off), local_to_utc = (\<lambda>t. t - off)\<rparr>"

text \<open>
  Python is dynamically typed: the first argument of \<^verbatim>\<open>utc_datetime\<close> is whatever the
  caller passes. \<^verbatim>\<open>d.date()\<close> is a date, \<^verbatim>\<open>d.date\<close> without the call is the bound method.
\<close>

datatype pyobj = Date int | BoundMethod

datatype error =
  IndexError | KeyError | TypeError | ValueError | TimeoutError
  | RequestException | KeyboardInterrupt

text \<open>\<^verbatim>\<open>except Exception\<close> catches everything but \<^verbatim>\<open>KeyboardInterrupt\<close> (a BaseException).\<close>

definition is_Exception :: "error \<Rightarrow> bool" where
  "is_Exception e = (e \<noteq> KeyboardInterrupt)"

section \<open>The world: clock, lamps and what was sent\<close>

type_synonym mac = string
type_synonym color = "int \<times> int \<times> int \<times> int"

datatype action =
  Sleep timedelta
  | HttpGet real real int
  | GroupSetPower "mac list" string int
  | GroupSetColor "mac list" color int
  | DeviceSetPower mac int
  | DeviceSetColor mac color

record world =
  clock :: instant
  lamps :: "mac \<Rightarrow> int \<times> color"
  trace :: "action list"

definition utc_now :: "world \<Rightarrow> instant" where
  "utc_now w = clock w"

text \<open>\<^verbatim>\<open>datetime.combine(date, time).astimezone(timezone.utc)\<close>; \<^verbatim>\<open>combine\<close> raises
  TypeError when its first argument is not a date.\<close>

definition utc_datetime :: "zone \<Rightarrow> pyobj \<Rightarrow> time_of_day \<Rightarrow> error + instant" where
  "utc_datetime z date t =
     (case date of
        Date n \<Rightarrow> Inr (local_to_utc z (days n + t))
      | BoundMethod \<Rightarrow> Inl TypeError)"

text \<open>\<^verbatim>\<open>time.sleep\<close> raises ValueError on a negative length; otherwise the clock advances
  by the length slept.\<close>

definition time_sleep :: "timedelta \<Rightarrow> world \<Rightarrow> (error + unit) \<times> world" where
  "time_sleep d w =
     (if d < 0 then (Inl ValueError, w)
      else (Inr (), w\<lparr>clock := clock w + d, trace := trace w @ [Sleep d]\<rparr>))"

text \<open>A timedelta is false exactly when it is zero; \<^verbatim>\<open>None\<close> is false.\<close>

definition truthy :: "timedelta option \<Rightarrow> bool" where
  "truthy t = (case t of None \<Rightarrow> False | Some d \<Rightarrow> d \<noteq> 0)"

definition sleep_until :: "instant \<Rightarrow> timedelta option \<Rightarrow> world \<Rightarrow> (error + unit) \<times> world" where
  "sleep_until until timeout w =
     (let wait_time = until - utc_now w in
      if truthy timeout \<and> the timeout < wait_time then
        (case time_sleep (the timeout) w of
           (Inl e, w') \<Rightarrow> (Inl e, w')
         | (Inr _, w') \<Rightarrow> (Inl TimeoutError, w'))
      else if wait_time > 0 then time_sleep wait_time w
      else (Inr (), w))"

section \<open>LampState, TimeEvent and Timeline\<close>

record LampState =
  ls_name :: string
  ls_power :: bool
  ls_color :: color

record TimeEvent =
  name :: string
  time :: instant
  state :: LampState
  fade :: timedelta

type_synonym timeline = "TimeEvent list"

text \<open>\<^verbatim>\<open>append\<close> then \<^verbatim>\<open>sort\<close>: Python's sort is stable and compares with \<^verbatim>\<open>__lt__\<close>, which
  looks at \<^verbatim>\<open>time\<close> only.\<close>

definition Timeline_insert :: "TimeEvent \<Rightarrow> timeline \<Rightarrow> timeline" where
  "Timeline_insert ev q = sort_key time (q @ [ev])"

text \<open>\<^verbatim>\<open>self.timeline[0]\<close> raises IndexError on the empty list, before anything else runs.
  The result is the outcome, the timeline afterwards and the world afterwards.\<close>

definition Timeline_pop ::
  "timedelta option \<Rightarrow> timeline \<Rightarrow> world \<Rightarrow> (error + TimeEvent) \<times> timeline \<times> world" where
  "Timeline_pop timeout q w =
     (case q of
        [] \<Rightarrow> (Inl IndexError, q, w)
      | ev # rest \<Rightarrow>
          (case sleep_until (time ev) timeout w of
             (Inl e, w') \<Rightarrow> (Inl e, q, w')
           | (Inr _, w') \<Rightarrow> (Inr ev, rest, w')))"



section \<open>Devices\<close>

text \<open>
  The lifxlan library is outside the repository. A device handle carries its hardware
  address; the lamps of the world are keyed by that address. A command is recorded in the
  trace and takes effect on the lamp at once; reading a lamp sends nothing that is
  recorded. \<^verbatim>\<open>"on"\<close> is the power level 65535 and \<^verbatim>\<open>"off"\<close> the level 0.
\<close>

datatype device = Device (mac_addr: mac)

definition get_power :: "device \<Rightarrow> world \<Rightarrow> int" where
  "get_power dev w = fst (lamps w (mac_addr dev))"

definition get_color :: "device \<Rightarrow> world \<Rightarrow> color" where
  "get_color dev w = snd (lamps w (mac_addr dev))"

definition set_power :: "device \<Rightarrow> int \<Rightarrow> world \<Rightarrow> world" where
  "set_power dev p w =
     w\<lparr>lamps := (lamps w)(mac_addr dev := (p, snd (lamps w (mac_addr dev)))),
       trace := trace w @ [DeviceSetPower (mac_addr dev) p]\<rparr>"

definition set_color :: "device \<Rightarrow> color \<Rightarrow> world \<Rightarrow> world" where
  "set_color dev c w =
     w\<lparr>lamps := (lamps w)(mac_addr dev := (fst (lamps w (mac_addr dev)), c)),
       trace := trace w @ [DeviceSetColor (mac_addr dev) c]\<rparr>"

definition group_set_power :: "device list \<Rightarrow> string \<Rightarrow> int \<Rightarrow> world \<Rightarrow> world" where
  "group_set_power g p ms w =
     w\<lparr>lamps := (\<lambda>m. if m \<in> set (map mac_addr g)
                       then (if p = ''on'' then 65535 else 0, snd (lamps w m))
                       else lamps w m),
       trace := trace w @ [GroupSetPower (map mac_addr g) p ms]\<rparr>"

definition group_set_color :: "device list \<Rightarrow> color \<Rightarrow> int \<Rightarrow> world \<Rightarrow> world" where
  "group_set_color g c ms w =
     w\<lparr>lamps := (\<lambda>m. if m \<in> set (map mac_addr g) then (fst (lamps w m), c) else lamps w m),
       trace := trace w @ [GroupSetColor (map mac_addr g) c ms]\<rparr>"

text \<open>
  \<^verbatim>\<open>int(1000 * duration.total_seconds())\<close> is computed in binary floating point.
  \<^verbatim>\<open>total_seconds()\<close> is the true division of the microseconds by \<open>10**6\<close>, rounded
  to the nearest double, ties to even; the product with 1000 is rounded the same way;
  \<^verbatim>\<open>int\<close> truncates towards zero. A double is written here as a fraction of two integers
  with a positive denominator. The values of a timedelta are far from the overflow and
  the subnormal range of doubles, so the mantissa always has 53 bits.
\<close>

fun bit_length :: "nat \<Rightarrow> nat" where
  "bit_length n = (if n = 0 then 0 else Suc (bit_length (n div 2)))"

declare bit_length.simps [simp del]

text \<open>The integer nearest to \<open>p / q\<close>, the even one of the two when \<open>p / q\<close> lies half way.\<close>

definition round_half_even :: "int \<Rightarrow> int \<Rightarrow> int" where
  "round_half_even p q =
     (let f = p div q; r = p mod q
      in if 2 * r < q then f else if q < 2 * r then f + 1 else if even f then f else f + 1)"

text \<open>The fraction \<open>p / (q * 2 ^ e)\<close>, for an exponent of either sign.\<close>

definition scale :: "int \<Rightarrow> int \<Rightarrow> int \<Rightarrow> int \<times> int" where
  "scale p q e = (if 0 \<le> e then (p, q * 2 ^ nat e) else (p * 2 ^ nat (- e), q))"

text \<open>The exponent of the leading bit of \<open>p / q\<close>: the \<open>k\<close> with \<open>2 ^ k \<le> p / q < 2 ^ (k + 1)\<close>.\<close>

definition binary_exponent :: "int \<Rightarrow> int \<Rightarrow> int" where
  "binary_exponent p q =
     (let k = int (bit_length (nat p)) - int (bit_length (nat q))
      in if snd (scale p q k) \<le> fst (scale p q k) then k else k - 1)"

text \<open>The double nearest to \<open>p / q\<close>, for \<open>p \<ge> 0\<close> and \<open>q > 0\<close>: a mantissa of 53 bits times
  a power of two.\<close>

definition to_double :: "int \<Rightarrow> int \<Rightarrow> int \<times> int" where
  "to_double p q =
     (if p = 0 then (0, 1)
      else
        (let e = binary_exponent p q - 52;
             m = round_half_even (fst (scale p q e)) (snd (scale p q e))
         in if 0 \<le> e then (m * 2 ^ nat e, 1) else (m, 2 ^ nat (- e))))"

definition total_seconds :: "timedelta \<Rightarrow> int \<times> int" where
  "total_seconds d = to_double d 1000000"

text \<open>\<^verbatim>\<open>int(1000 * duration.total_seconds())\<close> for a duration that is not negative.\<close>

definition float_ms :: "timedelta \<Rightarrow> int" where
  "float_ms d =
     (let seconds_float = total_seconds d;
          product = to_double (1000 * fst seconds_float) (snd seconds_float)
      in fst product div snd product)"

text \<open>A negative duration gives the negated doubles, and \<^verbatim>\<open>int\<close> truncates towards zero.\<close>

definition duration_ms :: "timedelta \<Rightarrow> int" where
  "duration_ms d = (if d < 0 then - float_ms (- d) else float_ms d)"

definition LampState_apply ::
  "LampState \<Rightarrow> device list \<Rightarrow> timedelta \<Rightarrow> world \<Rightarrow> (error + unit) \<times> world" where
  "LampState_apply s lights duration w =
     (let ms = duration_ms duration in
      if ls_power s then
        (case time_sleep 250000 (group_set_power lights ''on'' ms w) of
           (Inl e, w') \<Rightarrow> (Inl e, w')
         | (Inr _, w') \<Rightarrow> (Inr (), group_set_color lights (ls_color s) ms w'))
      else
        (case time_sleep 250000 (group_set_color lights (ls_color s) ms w) of
           (Inl e, w') \<Rightarrow> (Inl e, w')
         | (Inr _, w') \<Rightarrow> (Inr (), group_set_power lights ''off'' ms w')))"

definition LampState_equals :: "LampState \<Rightarrow> LampState \<Rightarrow> bool" where
  "LampState_equals s other = (ls_power s = ls_power other \<and> ls_color s = ls_color other)"

text \<open>\<^verbatim>\<open>if not fade: fade = self.fade\<close>; what is printed is not modelled.\<close>

definition TimeEvent_trigger ::
  "TimeEvent \<Rightarrow> device list \<Rightarrow> timedelta option \<Rightarrow> world \<Rightarrow> (error + unit) \<times> world" where
  "TimeEvent_trigger ev lights fade_arg w =
     LampState_apply (state ev) lights (if truthy fade_arg then the fade_arg else fade ev) w"

section \<open>Saving and restoring the devices\<close>

type_synonym saved_state = "mac \<times> int \<times> color"

definition save_current_states :: "device list \<Rightarrow> world \<Rightarrow> saved_state list" where
  "save_current_states devices w =
     map (\<lambda>dev. (mac_addr dev, get_power dev w, get_color dev w)) devices"

text \<open>The body of the loop of \<^verbatim>\<open>reset_device_states\<close> for the device and the entry at one
  index: the current state is read once, before either command.\<close>

definition reset_one :: "device \<Rightarrow> saved_state \<Rightarrow> world \<Rightarrow> world" where
  "reset_one dev saved_state w =
     (let current_state = (mac_addr dev, get_power dev w, get_color dev w);
          w1 = (if fst (snd current_state) \<noteq> fst (snd saved_state)
                then set_power dev (fst (snd saved_state)) w else w)
      in if snd (snd current_state) \<noteq> snd (snd saved_state)
         then set_color dev (snd (snd saved_state)) w1 else w1)"

text \<open>\<^verbatim>\<open>for i, dev in enumerate(devices)\<close>, from index \<open>i\<close> on; \<^verbatim>\<open>saved_states[i]\<close> raises
  IndexError when the saved list is too short.\<close>

fun reset_from ::
  "nat \<Rightarrow> device list \<Rightarrow> saved_state list \<Rightarrow> world \<Rightarrow> (error + unit) \<times> world" where
  "reset_from i [] saved_states w = (Inr (), w)"
| "reset_from i (dev # devs) saved_states w =
     (if i < length saved_states
      then reset_from (Suc i) devs saved_states (reset_one dev (saved_states ! i) w)
      else (Inl IndexError, w))"

definition reset_device_states ::
  "device list \<Rightarrow> saved_state list \<Rightarrow> world \<Rightarrow> (error + unit) \<times> world" where
  "reset_device_states devices saved_states w = reset_from 0 devices saved_states w"

section \<open>The sunset lookup\<close>

text \<open>
  The HTTP exchange, the JSON decoder and \<^verbatim>\<open>datetime.strptime\<close> are outside the repository;
  they are parameters. \<open>http_get_json lat lng day\<close> is \<^verbatim>\<open>requests.get(url+params).json()\<close> for
  the request of that UTC date: an exception or the decoded document. \<open>strptime s\<close> is
  the instant the string parses to under \<^verbatim>\<open>"%Y-%m-%dT%H:%M:%S%z"\<close>, or \<open>None\<close> when it raises
  ValueError.
\<close>

datatype json = JString string | JObject "(string \<times> json) list" | JOther

record env =
  tz :: zone
  http_get_json :: "real \<Rightarrow> real \<Rightarrow> int \<Rightarrow> error + json"
  strptime :: "string \<Rightarrow> instant option"

definition subscript :: "json \<Rightarrow> string \<Rightarrow> error + json" where
  "subscript j k =
     (case j of
        JObject kvs \<Rightarrow> (case map_of kvs k of Some v \<Rightarrow> Inr v | None \<Rightarrow> Inl KeyError)
      | _ \<Rightarrow> Inl TypeError)"

definition parse_time :: "env \<Rightarrow> json \<Rightarrow> error + instant" where
  "parse_time e j =
     (case j of
        JString s \<Rightarrow> (case strptime e s of Some t \<Rightarrow> Inr t | None \<Rightarrow> Inl ValueError)
      | _ \<Rightarrow> Inl TypeError)"

definition bind_err :: "error + 'a \<Rightarrow> ('a \<Rightarrow> error + 'b) \<Rightarrow> error + 'b" where
  "bind_err r f = (case r of Inl e \<Rightarrow> Inl e | Inr v \<Rightarrow> f v)"

text \<open>\<^verbatim>\<open>date.strftime("%Y-%m-%d")\<close> of a UTC datetime is its UTC calendar date.\<close>

definition request_sunrise_sunset ::
  "env \<Rightarrow> real \<Rightarrow> real \<Rightarrow> instant \<Rightarrow> world \<Rightarrow> (error + instant \<times> instant) \<times> world" where
  "request_sunrise_sunset e lat lng date w =
     (let date_str = date div days 1 in
      (bind_err (http_get_json e lat lng date_str) (\<lambda>body.
       bind_err (subscript body ''results'') (\<lambda>payload.
       bind_err (subscript payload ''sunrise'') (\<lambda>j1.
       bind_err (parse_time e j1) (\<lambda>sunrise.
       bind_err (subscript payload ''sunset'') (\<lambda>j2.
       bind_err (parse_time e j2) (\<lambda>sunset.
       Inr (sunrise, sunset))))))),
       w\<lparr>trace := trace w @ [HttpGet lat lng date_str]\<rparr>))"

text \<open>In the handler, \<^verbatim>\<open>local_date = date.astimezone().date\<close> has no call parentheses: it
  is the bound method, and it is what \<^verbatim>\<open>utc_datetime\<close> receives.\<close>

definition get_sunset_or_default ::
  "env \<Rightarrow> real \<Rightarrow> real \<Rightarrow> instant \<Rightarrow> world \<Rightarrow> (error + instant) \<times> world" where
  "get_sunset_or_default e lat lng date w =
     (case request_sunrise_sunset e lat lng date w of
        (Inr (_, sunset), w') \<Rightarrow> (Inr sunset, w')
      | (Inl ex, w') \<Rightarrow>
          if is_Exception ex then
            (let local_date = BoundMethod;
                 local_time = hours 18
             in (utc_datetime (tz e) local_date local_time, w'))
          else (Inl ex, w'))"

definition next_sunset :: "env \<Rightarrow> real \<Rightarrow> real \<Rightarrow> world \<Rightarrow> (error + instant) \<times> world" where
  "next_sunset e lat lng w =
     (let now = utc_now w in
      case get_sunset_or_default e lat lng now w of
        (Inl ex, w') \<Rightarrow> (Inl ex, w')
      | (Inr sunset, w') \<Rightarrow>
          if sunset > now then (Inr sunset, w')
          else get_sunset_or_default e lat lng (now + days 1) w')"

section \<open>Filling the timeline\<close>

definition COLOR_NIGHT_LIGHT :: color where
  "COLOR_NIGHT_LIGHT = (8402, 0, 49151, 2000)"

definition COLOR_NEUTRAL_LIGHT :: color where
  "COLOR_NEUTRAL_LIGHT = (8402, 0, 65535, 3500)"

definition SUNSET_OFFSET :: timedelta where
  "SUNSET_OFFSET = minutes (- 30)"

definition TRANSITION_DURATION :: timedelta where
  "TRANSITION_DURATION = minutes 5"

definition LATITUDE :: real where
  "LATITUDE = 4542178 / 100000"

definition LONGITUDE :: real where
  "LONGITUDE = - (7569119 / 100000)"

definition state_evening :: LampState where
  "state_evening = \<lparr>ls_name = ''Evening Lights'', ls_power = True, ls_color = COLOR_NEUTRAL_LIGHT\<rparr>"

definition state_night :: LampState where
  "state_night = \<lparr>ls_name = ''Night Lights'', ls_power = True, ls_color = COLOR_NIGHT_LIGHT\<rparr>"

definition state_off :: LampState where
  "state_off = \<lparr>ls_name = ''Lights Off'', ls_power = False, ls_color = COLOR_NIGHT_LIGHT\<rparr>"

text \<open>\<^verbatim>\<open>sunset.astimezone().date()\<close> is the date on the local wall clock at the sunset.\<close>

definition fill_timeline :: "env \<Rightarrow> timeline \<Rightarrow> world \<Rightarrow> (error + unit) \<times> timeline \<times> world" where
  "fill_timeline e q w =
     (let fade = TRANSITION_DURATION in
      case next_sunset e LATITUDE LONGITUDE w of
        (Inl ex, w') \<Rightarrow> (Inl ex, q, w')
      | (Inr sunset, w') \<Rightarrow>
          (let local_date = Date (utc_to_local (tz e) sunset div days 1);
               evening = sunset + SUNSET_OFFSET;
               q1 = Timeline_insert
                      \<lparr>name = ''Evening'', time = evening, state = state_evening, fade = fade\<rparr> q
           in case utc_datetime (tz e) local_date (hours 21) of
                Inl ex \<Rightarrow> (Inl ex, q1, w')
              | Inr nighttime \<Rightarrow>
                  (let q2 = Timeline_insert
                              \<lparr>name = ''Nightime'', time = nighttime, state = state_night,
                                fade = fade\<rparr> q1;
                       lightsoff = nighttime + hours 3;
                       q3 = Timeline_insert
                              \<lparr>name = ''Lights Off'', time = lightsoff, state = state_off,
                                fade = fade\<rparr> q2
                   in (Inr (), q3, w'))))"

section \<open>The main loop\<close>

text \<open>
  The operator's interrupt comes from outside. \<open>sigint\<close> says in which phase of one pass
  of the loop \<^verbatim>\<open>KeyboardInterrupt\<close> is raised, if in any: in the call of \<^verbatim>\<open>timeline.pop\<close>
  (awaiting), in the call of \<^verbatim>\<open>event.trigger\<close> (triggering), or in the call of
  \<^verbatim>\<open>fill_timeline\<close> (refilling). It is raised as the call is entered.
\<close>

datatype phase = Awaiting | Triggering | Refilling

datatype control = Continue | Break | Raise error

text \<open>The body of the \<^verbatim>\<open>try\<close> statement.\<close>

definition try_block ::
  "phase option \<Rightarrow> device list \<Rightarrow> timeline \<Rightarrow> world \<Rightarrow> (error + unit) \<times> timeline \<times> world" where
  "try_block sigint ctrl_group q w =
     (if sigint = Some Awaiting then (Inl KeyboardInterrupt, q, w)
      else
        (case Timeline_pop None q w of
           (Inl ex, q', w') \<Rightarrow> (Inl ex, q', w')
         | (Inr event, q', w') \<Rightarrow>
             if sigint = Some Triggering then (Inl KeyboardInterrupt, q', w')
             else (case TimeEvent_trigger event ctrl_group None w' of
                     (r, w'') \<Rightarrow> (r, q', w''))))"

text \<open>One pass of \<^verbatim>\<open>while True\<close>. The \<^verbatim>\<open>except\<close> clauses catch what the \<^verbatim>\<open>try\<close> body raises; what
  a handler raises is caught by none of them and leaves the loop.\<close>

definition loop_body ::
  "env \<Rightarrow> phase option \<Rightarrow> device list \<Rightarrow> saved_state list \<Rightarrow> device list \<Rightarrow> timeline \<Rightarrow> world
     \<Rightarrow> control \<times> timeline \<times> world" where
  "loop_body e sigint devices saved_states ctrl_group q w =
     (case try_block sigint ctrl_group q w of
        (Inr _, q1, w1) \<Rightarrow> (Continue, q1, w1)
      | (Inl ex, q1, w1) \<Rightarrow>
          if ex = IndexError then
            (if sigint = Some Refilling then (Raise KeyboardInterrupt, q1, w1)
             else (case fill_timeline e q1 w1 of
                     (Inr _, q2, w2) \<Rightarrow> (Continue, q2, w2)
                   | (Inl ex2, q2, w2) \<Rightarrow> (Raise ex2, q2, w2)))
          else if ex = TimeoutError then (Continue, q1, w1)
          else if ex = KeyboardInterrupt then
            (case reset_device_states devices saved_states w1 of
               (Inr _, w2) \<Rightarrow> (Break, q1, w2)
             | (Inl ex2, w2) \<Rightarrow> (Raise ex2, q1, w2))
          else (Raise ex, q1, w1))"

text \<open>The loop, for at most \<open>fuel\<close> passes; \<open>sched k\<close> is the interrupt of pass \<open>k\<close>. \<open>None\<close>
  is a loop still running when the fuel ends; otherwise the loop was left, by \<^verbatim>\<open>break\<close> or
  by an exception.\<close>

fun main_loop ::
  "nat \<Rightarrow> env \<Rightarrow> (nat \<Rightarrow> phase option) \<Rightarrow> nat \<Rightarrow> device list \<Rightarrow> saved_state list \<Rightarrow> device list
     \<Rightarrow> timeline \<Rightarrow> world \<Rightarrow> (control \<times> timeline \<times> world) option" where
  "main_loop 0 e sched k devices saved_states ctrl_group q w = None"
| "main_loop (Suc fuel) e sched k devices saved_states ctrl_group q w =
     (case loop_body e (sched k) devices saved_states ctrl_group q w of
        (Continue, q', w') \<Rightarrow> main_loop fuel e sched (Suc k) devices saved_states ctrl_group q' w'
      | r \<Rightarrow> Some r)"

text \<open>\<^verbatim>\<open>main\<close> from the point where the devices are known: the states are saved, the
  timeline starts empty and the loop runs over the group of those devices.\<close>

definition main_run ::
  "nat \<Rightarrow> env \<Rightarrow> (nat \<Rightarrow> phase option) \<Rightarrow> device list \<Rightarrow> world
     \<Rightarrow> (control \<times> timeline \<times> world) option" where
  "main_run fuel e sched devices w =
     main_loop fuel e sched 0 devices (save_current_states devices w) devices [] w"

section \<open>Concrete inputs\<close>

definition world0 :: world where
  "world0 = \<lparr>clock = 0, lamps = (\<lambda>m. (0, (0, 0, 0, 0))), trace = []\<rparr>"

definition event_at :: "string \<Rightarrow> instant \<Rightarrow> TimeEvent" where
  "event_at n t = \<lparr>name = n, time = t, state = state_off, fade = seconds 4\<rparr>"

definition world_at :: "instant \<Rightarrow> world" where
  "world_at t = world0\<lparr>clock := t\<rparr>"

text \<open>Timestamps as the service writes them, and what \<^verbatim>\<open>strptime\<close> makes of them.\<close>

definition iso_table :: "(string \<times> instant) list" where
  "iso_table =
     [(''1970-01-01T12:40:00+00:00'', hours 12 + minutes 40),
      (''1970-01-01T21:20:00+00:00'', hours 21 + minutes 20),
      (''1970-01-01T00:00:01+00:00'', seconds 1)]"

definition answer :: "string \<Rightarrow> string \<Rightarrow> json" where
  "answer sunrise sunset =
     JObject [(''results'', JObject [(''sunrise'', JString sunrise), (''sunset'', JString sunset)]),
              (''status'', JString ''OK'')]"

text \<open>A service that answers every request with a sunset at 21:20 UTC on 1970-01-01, on a
  machine whose zone is at a fixed offset from UTC.\<close>

definition winter_env :: "timedelta \<Rightarrow> env" where
  "winter_env off =
     \<lparr>tz = fixed_zone off,
       http_get_json =
         (\<lambda>lat lng day. Inr (answer ''1970-01-01T12:40:00+00:00'' ''1970-01-01T21:20:00+00:00'')),
       strptime = map_of iso_table\<rparr>"

text \<open>A service that answers every request with the first second of the epoch.\<close>

definition epoch_env :: env where
  "epoch_env =
     \<lparr>tz = fixed_zone 0,
       http_get_json =
         (\<lambda>lat lng day. Inr (answer ''1970-01-01T00:00:01+00:00'' ''1970-01-01T00:00:01+00:00'')),
       strptime = map_of iso_table\<rparr>"

text \<open>A service that cannot be reached.\<close>

definition offline_env :: env where
  "offline_env =
     \<lparr>tz = fixed_zone (hours (- 5)),
       http_get_json = (\<lambda>lat lng day. Inl RequestException),
       strptime = map_of iso_table\<rparr>"

text \<open>Two lamps: the first off and warm, the second on and cold.\<close>

definition two_lamps :: world where
  "two_lamps =
     \<lparr>clock = 0,
       lamps = (\<lambda>m. if m = ''aa'' then (0, (0, 0, 100, 2500)) else (65535, (0, 0, 900, 6500))),
       trace = []\<rparr>"

section \<open>What the specification expects of the restore\<close>

text \<open>The commands the restore is to send for one device, in the specification's words: a
  set-power command only if the current power differs from the saved one, a set-color
  command only if the current color differs from the saved one.\<close>

definition restore_commands :: "device \<Rightarrow> saved_state \<Rightarrow> world \<Rightarrow> action list" where
  "restore_commands dev s w =
     (if get_power dev w \<noteq> fst (snd s) then [DeviceSetPower (mac_addr dev) (fst (snd s))] else [])
     @ (if get_color dev w \<noteq> snd (snd s) then [DeviceSetColor (mac_addr dev) (snd (snd s))] else [])"

section \<open>Timeline: what pop returns\<close>




text \<open>With no timeout, a pop on a timeline that is not empty returns its first event.\<close>

lemma pop_None_returns:
  "q \<noteq> [] \<Longrightarrow> \<exists>w'. Timeline_pop None q w = (Inr (hd q), tl q, w')"
  by (cases q)
    (auto simp: Timeline_pop_def sleep_until_def truthy_def time_sleep_def Let_def)

lemma mset_Timeline_insert: "mset (Timeline_insert ev q) = add_mset ev (mset q)"
  by (simp add: Timeline_insert_def)







text \<open>
  C5, as stated, fails for the timeout \<^verbatim>\<open>timedelta(0)\<close>: it elapses at once, before an
  event ten microseconds ahead, yet the pop sleeps until the event and returns it.
\<close>

theorem pop_zero_timeout_counterexample:
  "0 < time (event_at ''a'' 10) - clock world0
   \<and> Timeline_pop (Some 0) [event_at ''a'' 10] world0
       = (Inr (event_at ''a'' 10), [], world0\<lparr>clock := 10, trace := [Sleep 10]\<rparr>)"
  by (simp add: Timeline_pop_def sleep_until_def truthy_def time_sleep_def utc_now_def
      event_at_def world0_def)

text \<open>
  C5, amended: a pop with a positive timeout that is shorter than the wait for the first
  queued event sleeps for the timeout, raises TimeoutError and leaves the timeline as it
  was.
\<close>

theorem pop_timeout_keeps_queue:
  "0 < t \<Longrightarrow> t < time ev - clock w \<Longrightarrow>
     Timeline_pop (Some t) (ev # rest) w
       = (Inl TimeoutError, ev # rest, w\<lparr>clock := clock w + t, trace := trace w @ [Sleep t]\<rparr>)"
  by (simp add: Timeline_pop_def sleep_until_def truthy_def time_sleep_def utc_now_def)

theorem pop_timeout_keeps_queue_witness:
  "(0::int) < 3 \<and> 3 < time (event_at ''a'' 10) - clock world0
   \<and> Timeline_pop (Some 3) [event_at ''a'' 10] world0
       = (Inl TimeoutError, [event_at ''a'' 10],
          world0\<lparr>clock := clock world0 + 3, trace := trace world0 @ [Sleep 3]\<rparr>)"
proof -
  have h1: "(0::int) < 3" by simp
  have h2: "3 < time (event_at ''a'' 10) - clock world0"
    by (simp add: event_at_def world0_def)
  from pop_timeout_keeps_queue [OF h1 h2, of "[]"] h1 h2 show ?thesis by simp
qed

text \<open>
  C6: a pop on an empty timeline raises IndexError, whatever the timeout; the world is
  unchanged, so the clock did not move and nothing was slept.
\<close>

theorem pop_empty_raises: "Timeline_pop timeout [] w = (Inl IndexError, [], w)"
  by (simp add: Timeline_pop_def)

section \<open>LampState: the order of the two commands\<close>

lemma bit_length_0 [simp]: "bit_length 0 = 0"
  by (simp add: bit_length.simps)

lemma bit_length_1 [simp]: "bit_length (Suc 0) = Suc 0"
  by (simp add: bit_length.simps [of "Suc 0"])

lemma bit_length_Bit0 [simp]:
  "bit_length (numeral (Num.Bit0 n)) = Suc (bit_length (numeral n))"
  by (subst bit_length.simps) simp

lemma bit_length_Bit1 [simp]:
  "bit_length (numeral (Num.Bit1 n)) = Suc (bit_length (numeral n))"
  by (subst bit_length.simps) simp

lemma exponent_1001000: "binary_exponent 1001000 1000000 = 0"
  by (simp add: binary_exponent_def scale_def Let_def)

lemma seconds_1001000: "to_double 1001000 1000000 = (4508103226997866, 4503599627370496)"
  by (simp add: to_double_def exponent_1001000 scale_def round_half_even_def Let_def)


lemma exponent_product_1001000: "binary_exponent 4508103226997866000 4503599627370496 = 9"
  by (simp add: binary_exponent_def scale_def Let_def)

lemma product_1001000: "to_double 4508103226997866000 4503599627370496
    = (8804889115230207, 8796093022208)"
  by (simp add: to_double_def exponent_product_1001000 scale_def round_half_even_def Let_def)

lemma float_ms_1001000: "float_ms 1001000 = 1000"
  by (simp add: float_ms_def total_seconds_def seconds_1001000 product_1001000 Let_def)

lemma bit_length_bounds:
  "0 < n \<Longrightarrow> 2 ^ (bit_length n - 1) \<le> n \<and> n < 2 ^ bit_length n"
proof (induction n rule: bit_length.induct)
  case (1 n)
  show ?case
  proof (cases "n div 2 = 0")
    case True
    with "1.prems" have "n = 1" by presburger
    then show ?thesis by (simp add: bit_length.simps [of 1] bit_length.simps [of 0])
  next
    case False
    then have pos: "0 < n div 2" by simp
    from "1.IH" [OF _ pos] "1.prems"
    have ih: "2 ^ (bit_length (n div 2) - 1) \<le> n div 2 \<and> n div 2 < 2 ^ bit_length (n div 2)"
      by simp
    have bl: "bit_length n = Suc (bit_length (n div 2))"
      using "1.prems" by (subst bit_length.simps) simp
    have blpos: "0 < bit_length (n div 2)"
      using pos by (subst bit_length.simps) simp
    then obtain j where j: "bit_length (n div 2) = Suc j" by (cases "bit_length (n div 2)") auto
    from ih j have a: "2 ^ j \<le> n div 2" and b: "n div 2 < 2 * 2 ^ j" by simp_all
    from a have "2 * 2 ^ j \<le> n" by presburger
    moreover from b have "n < 2 * (2 * 2 ^ j)" by presburger
    ultimately show ?thesis by (simp add: bl j)
  qed
qed

lemma round_half_even_error:
  assumes "0 < q"
  shows "2 * \<bar>round_half_even p q * q - p\<bar> \<le> q"
proof -
  have d: "p = q * (p div q) + p mod q" by simp
  have r: "0 \<le> p mod q" "p mod q < q" using assms by simp_all
  define f where "f = p div q"
  define r where "r = p mod q"
  have p: "p = q * f + r" "0 \<le> r" "r < q"
    using d r by (simp_all add: f_def r_def)
  have "2 * \<bar>(if 2 * r < q then f else if q < 2 * r then f + 1 else if even f then f else f + 1) * q
      - (q * f + r)\<bar> \<le> q"
    using p(2,3) by (auto simp: algebra_simps)
  then show ?thesis
    unfolding round_half_even_def Let_def f_def [symmetric] r_def [symmetric] p(1) [symmetric]
    by simp
qed

lemma scale_real:
  assumes "0 < q" and "scale p q e = (P, Q)"
  shows "0 < Q \<and> real_of_int P / real_of_int Q = (real_of_int p / real_of_int q) * 2 powi (- e)"
proof (cases "0 \<le> e")
  case True
  then have "P = p" "Q = q * 2 ^ nat e" using assms by (simp_all add: scale_def)
  moreover have "(2::real) powi (- e) = 1 / 2 ^ nat e"
    using True by (simp add: power_int_minus power_int_def field_simps)
  ultimately show ?thesis using assms(1) by (simp add: field_simps)
next
  case False
  then have "P = p * 2 ^ nat (- e)" "Q = q" using assms by (simp_all add: scale_def)
  moreover have "(2::real) powi (- e) = 2 ^ nat (- e)"
    using False by (simp add: power_int_def)
  ultimately show ?thesis using assms(1) by simp
qed


lemma binary_exponent_lower:
  assumes "0 < p" and "0 < q"
  shows "1 \<le> (real_of_int p / real_of_int q) * 2 powi (- binary_exponent p q)"
proof -
  define k where "k = int (bit_length (nat p)) - int (bit_length (nat q))"
  obtain P Q where sc: "scale p q k = (P, Q)" by (cases "scale p q k")
  from scale_real [OF assms(2) sc]
  have Q: "0 < Q" and PQ: "real_of_int P / real_of_int Q
      = (real_of_int p / real_of_int q) * 2 powi (- k)" by simp_all
  show ?thesis
  proof (cases "Q \<le> P")
    case True
    then have be: "binary_exponent p q = k"
      by (simp add: binary_exponent_def k_def [symmetric] sc)
    from True Q have "1 \<le> real_of_int P / real_of_int Q" by simp
    then show ?thesis by (simp add: be PQ)
  next
    case False
    then have be: "binary_exponent p q = k - 1"
      by (simp add: binary_exponent_def k_def [symmetric] sc)
    define bp where "bp = bit_length (nat p)"
    define bq where "bq = bit_length (nat q)"
    from bit_length_bounds [of "nat p"] assms(1)
    have p1: "2 ^ (bp - 1) \<le> nat p" and p2: "nat p < 2 ^ bp" by (simp_all add: bp_def)
    from bit_length_bounds [of "nat q"] assms(2)
    have q2: "nat q < 2 ^ bq" by (simp add: bq_def)
    have bpos: "0 < bp"
    proof (rule ccontr)
      assume "\<not> 0 < bp"
      then have "bp = 0" by simp
      with p2 assms(1) show False by simp
    qed
    have rp: "(2::real) ^ (bp - 1) \<le> real_of_int p"
    proof -
      from p1 have "real (2 ^ (bp - 1)) \<le> real (nat p)" by (simp only: of_nat_le_iff)
      then show ?thesis using assms(1) by simp
    qed
    have rq: "real_of_int q \<le> (2::real) ^ bq"
    proof -
      from q2 have "real (nat q) < real (2 ^ bq)" by (simp only: of_nat_less_iff)
      then show ?thesis using assms(2) by simp
    qed
    have ex: "- (k - 1) = int bq - int (bp - 1)"
      using bpos by (simp add: k_def bp_def bq_def)
    have pw: "(2::real) powi (- (k - 1)) = 2 ^ bq / 2 ^ (bp - 1)"
      unfolding ex by (simp add: power_int_diff)
    have "real_of_int q * 2 ^ (bp - 1) \<le> 2 ^ bq * real_of_int p"
    proof -
      have "real_of_int q * 2 ^ (bp - 1) \<le> 2 ^ bq * 2 ^ (bp - 1)"
        using rq by simp
      also have "\<dots> \<le> 2 ^ bq * real_of_int p"
        using rp by simp
      finally show ?thesis .
    qed
    then have "1 \<le> (real_of_int p / real_of_int q) * (2 ^ bq / 2 ^ (bp - 1))"
      using assms by (simp add: field_simps)
    then show ?thesis by (simp only: be pw)
  qed
qed

lemma to_double_error:
  assumes "0 < p" and "0 < q" and "to_double p q = (a, b)"
  shows "0 < b \<and> \<bar>real_of_int a / real_of_int b - real_of_int p / real_of_int q\<bar>
           \<le> (real_of_int p / real_of_int q) / 2 ^ 53"
proof -
  define x where "x = real_of_int p / real_of_int q"
  define e where "e = binary_exponent p q - 52"
  obtain P Q where sc: "scale p q e = (P, Q)" by (cases "scale p q e")
  define m where "m = round_half_even P Q"
  define c where "c = (2::real) powi e"
  have cpos: "0 < c" by (simp add: c_def)
  from scale_real [OF assms(2) sc]
  have Q: "0 < Q" and PQ: "real_of_int P / real_of_int Q = x * 2 powi (- e)"
    by (simp_all add: x_def)
  have inv: "(2::real) powi (- e) = 1 / c"
    by (simp add: c_def power_int_minus field_simps)
  have x_sc: "x = (real_of_int P / real_of_int Q) * c"
    using cpos by (simp add: PQ inv)
  define g where "g = (2::real) powi (- binary_exponent p q)"
  have pe: "(2::real) powi (- e) = g * 2 ^ 52"
  proof -
    have "(2::real) powi (- binary_exponent p q + 52) = 2 powi (- binary_exponent p q) * 2 powi 52"
      by (rule power_int_add) simp
    moreover have "- e = - binary_exponent p q + 52" by (simp add: e_def)
    moreover have "(2::real) powi 52 = 2 ^ 52" by simp
    ultimately show ?thesis by (simp only: g_def)
  qed
  have PQ': "real_of_int P / real_of_int Q = 2 ^ 52 * (x * g)"
    by (simp only: PQ pe mult_ac)
  have "1 \<le> x * g"
    using binary_exponent_lower [OF assms(1,2)] by (simp only: x_def g_def)
  then have "(2::real) ^ 52 * 1 \<le> 2 ^ 52 * (x * g)"
    by (intro mult_left_mono) simp_all
  then have big: "2 ^ 52 \<le> real_of_int P / real_of_int Q"
    by (simp only: PQ' mult_1_right)
  from round_half_even_error [OF Q, of P]
  have "2 * \<bar>m * Q - P\<bar> \<le> Q" by (simp add: m_def)
  then have "real_of_int (2 * \<bar>m * Q - P\<bar>) \<le> real_of_int Q"
    by (simp only: of_int_le_iff)
  then have "2 * \<bar>real_of_int m * real_of_int Q - real_of_int P\<bar> \<le> real_of_int Q"
    by simp
  then have half: "\<bar>real_of_int m - real_of_int P / real_of_int Q\<bar> \<le> 1 / 2"
    using Q by (simp add: field_simps abs_le_iff)
  have ab: "0 < b \<and> real_of_int a / real_of_int b = real_of_int m * c"
  proof (cases "0 \<le> e")
    case True
    then have "a = m * 2 ^ nat e" "b = 1"
      using assms(1,3) by (simp_all add: to_double_def e_def [symmetric] sc m_def Let_def)
    moreover have "c = 2 ^ nat e" using True by (simp add: c_def power_int_def)
    ultimately show ?thesis by simp
  next
    case False
    then have "a = m" "b = 2 ^ nat (- e)"
      using assms(1,3) by (simp_all add: to_double_def e_def [symmetric] sc m_def Let_def)
    moreover have "c = 1 / 2 ^ nat (- e)"
      using False by (simp add: c_def power_int_def field_simps)
    ultimately show ?thesis by simp
  qed
  have "real_of_int a / real_of_int b - x
      = c * (real_of_int m - real_of_int P / real_of_int Q)"
    by (simp add: ab x_sc algebra_simps)
  then have "\<bar>real_of_int a / real_of_int b - x\<bar>
      = \<bar>c\<bar> * \<bar>real_of_int m - real_of_int P / real_of_int Q\<bar>"
    by (simp only: abs_mult)
  then have "\<bar>real_of_int a / real_of_int b - x\<bar>
      = c * \<bar>real_of_int m - real_of_int P / real_of_int Q\<bar>"
    using cpos by simp
  also have "\<dots> \<le> c * (1 / 2)"
    using half cpos by simp
  also have "\<dots> \<le> x / 2 ^ 53"
  proof -
    have "c * 2 ^ 52 \<le> c * (real_of_int P / real_of_int Q)"
      using big cpos by (intro mult_left_mono) simp_all
    then have "c * 2 ^ 52 \<le> x" by (simp only: x_sc mult.commute)
    then show ?thesis by simp
  qed
  finally show ?thesis using ab by (simp add: x_def)
qed


lemma float_ms_0: "float_ms 0 = 0"
  by (simp add: float_ms_def total_seconds_def to_double_def)

lemma float_ms_bounds:
  assumes "0 < d" and "d \<le> 1000000000000000"
  shows "d div 1000 - 1 \<le> float_ms d \<and> float_ms d \<le> d div 1000
         \<and> (d mod 1000 \<noteq> 0 \<longrightarrow> float_ms d = d div 1000)"
proof -
  define x where "x = real_of_int d / real_of_int 1000000"
  define t where "t = real_of_int d / 1000"
  define dl where "dl = x / 2 ^ 53"
  have xpos: "0 < x" using assms(1) by (simp add: x_def)
  have xbound: "x \<le> 1000000000" using assms(2) by (simp add: x_def)
  have tx: "t = 1000 * x" by (simp add: t_def x_def)
  have dlpos: "0 < dl" using xpos by (simp add: dl_def)
  have dlx: "dl \<le> x"
  proof -
    have "x / 2 ^ 53 \<le> x / 1" using xpos by (intro divide_left_mono) simp_all
    then show ?thesis by (simp add: dl_def)
  qed
  have dlsmall: "3000 * dl < 1 / 1000"
  proof -
    have "dl \<le> 1000000000 / 2 ^ 53"
      unfolding dl_def using xbound by (intro divide_right_mono) simp_all
    moreover have "(1000000000::real) / 2 ^ 53 < 1 / 3000000" by simp
    ultimately show ?thesis by linarith
  qed
  obtain a b where ab: "to_double d 1000000 = (a, b)" by (cases "to_double d 1000000")
  define x1 where "x1 = real_of_int a / real_of_int b"
  have q6: "(0::int) < 1000000" by simp
  from to_double_error [OF assms(1) q6 ab] have b: "0 < b" by blast
  from to_double_error [OF assms(1) q6 ab]
  have "\<bar>real_of_int a / real_of_int b - real_of_int d / real_of_int 1000000\<bar>
      \<le> (real_of_int d / real_of_int 1000000) / 2 ^ 53"
    by blast
  then have e1: "\<bar>x1 - x\<bar> \<le> dl"
    by (simp only: x1_def x_def dl_def)
  have x1lo: "x - dl \<le> x1" and x1hi: "x1 \<le> x + dl"
    using e1 by linarith+
  have x1pos: "0 < x1"
  proof -
    have "dl < x"
    proof -
      have "x / 2 ^ 53 < x / 1" using xpos by (intro divide_strict_left_mono) simp_all
      then show ?thesis by (simp add: dl_def)
    qed
    with x1lo show ?thesis by linarith
  qed
  have apos: "0 < a"
  proof (rule ccontr)
    assume "\<not> 0 < a"
    then have "real_of_int a \<le> 0" by simp
    then have "x1 \<le> 0" using b by (simp add: x1_def divide_le_0_iff)
    with x1pos show False by simp
  qed
  then have a1000: "0 < 1000 * a" by simp
  obtain a2 b2 where ab2: "to_double (1000 * a) b = (a2, b2)"
    by (cases "to_double (1000 * a) b")
  define y where "y = real_of_int a2 / real_of_int b2"
  define z where "z = real_of_int (1000 * a) / real_of_int b"
  define dl2 where "dl2 = z / 2 ^ 53"
  from to_double_error [OF a1000 b ab2]
  have b2: "0 < b2" by blast
  from to_double_error [OF a1000 b ab2]
  have "\<bar>real_of_int a2 / real_of_int b2 - real_of_int (1000 * a) / real_of_int b\<bar>
         \<le> (real_of_int (1000 * a) / real_of_int b) / 2 ^ 53"
    by blast
  then have e2: "\<bar>y - z\<bar> \<le> dl2"
    by (simp only: y_def z_def dl2_def)
  have zx: "z = 1000 * x1" by (simp add: z_def x1_def)
  have dl2b: "dl2 \<le> 2000 * dl"
  proof -
    have "z \<le> 2000 * x" using zx x1hi dlx by linarith
    then have "z / 2 ^ 53 \<le> 2000 * x / 2 ^ 53" by (intro divide_right_mono) simp_all
    then show ?thesis by (simp add: dl2_def dl_def)
  qed
  have dl2pos: "0 \<le> dl2" using e2 by linarith
  have close_hi: "y < t + 1 / 1000"
    using e2 zx x1hi dl2b dlsmall tx by linarith
  have close_lo: "t - 1 / 1000 < y"
    using e2 zx x1lo dl2b dlsmall tx by linarith
  have fm: "float_ms d = \<lfloor>y\<rfloor>"
    by (simp add: float_ms_def total_seconds_def ab ab2 Let_def y_def floor_divide_of_int_eq)
  define n where "n = d div 1000"
  define r where "r = d mod 1000"
  have d: "d = 1000 * n + r" and r: "0 \<le> r" "r \<le> 999"
    by (simp_all add: n_def r_def)
  have tr: "t = real_of_int n + real_of_int r / 1000"
    by (simp add: t_def d)
  have rr: "0 \<le> real_of_int r" "real_of_int r \<le> 999"
    using r by simp_all
  have up: "\<lfloor>y\<rfloor> \<le> n"
  proof -
    have "y < real_of_int n + 1" using close_hi tr rr by linarith
    then show ?thesis by (simp only: floor_le_iff)
  qed
  have low: "n - 1 \<le> \<lfloor>y\<rfloor>"
  proof -
    have "real_of_int n - 1 \<le> y" using close_lo tr rr by linarith
    then have "real_of_int (n - 1) \<le> y" by simp
    then show ?thesis by (simp only: le_floor_iff)
  qed
  have exact: "r \<noteq> 0 \<Longrightarrow> \<lfloor>y\<rfloor> = n"
  proof -
    assume "r \<noteq> 0"
    with r have "1 \<le> r" by simp
    then have "1 \<le> real_of_int r" by simp
    then have "real_of_int n \<le> y" using close_lo tr by linarith
    then have "n \<le> \<lfloor>y\<rfloor>" by (simp only: le_floor_iff)
    with up show ?thesis by simp
  qed
  from up low exact show ?thesis
    by (simp add: fm n_def r_def)
qed


lemma round_half_even_exact: "0 < q \<Longrightarrow> round_half_even (v * q) q = v"
  by (simp add: round_half_even_def)

lemma to_double_exact:
  assumes "0 < v" and "v < 2 ^ 53" and "0 < q" and "to_double (v * q) q = (a, b)"
  shows "0 < b \<and> a = v * b"
proof -
  define e where "e = binary_exponent (v * q) q - 52"
  have pq: "0 < v * q" using assms(1,3) by simp
  have xv: "real_of_int (v * q) / real_of_int q = real_of_int v"
    using assms(3) by simp
  from binary_exponent_lower [OF pq assms(3)]
  have lo: "1 \<le> real_of_int v * 2 powi (- binary_exponent (v * q) q)"
    by (simp only: xv)
  have e0: "e \<le> 0"
  proof (rule ccontr)
    assume "\<not> e \<le> 0"
    then have big: "53 \<le> binary_exponent (v * q) q" by (simp add: e_def)
    define n where "n = nat (binary_exponent (v * q) q)"
    have n: "53 \<le> n" using big by (simp add: n_def)
    have "(2::real) powi (- binary_exponent (v * q) q) = 1 / 2 ^ n"
      using big by (simp add: power_int_minus power_int_def n_def field_simps)
    with lo have "1 \<le> real_of_int v / 2 ^ n" by simp
    then have "(2::real) ^ n \<le> real_of_int v" by (simp add: field_simps)
    moreover have "(2::real) ^ 53 \<le> 2 ^ n" using n by (intro power_increasing) simp_all
    moreover have "real_of_int v < 2 ^ 53"
    proof -
      from assms(2) have "real_of_int v < real_of_int (2 ^ 53)" by (simp only: of_int_less_iff)
      then show ?thesis by simp
    qed
    ultimately show False by linarith
  qed
  show ?thesis
  proof (cases "e = 0")
    case True
    then have "to_double (v * q) q = (v, 1)"
      using pq assms(3)
      by (simp add: to_double_def e_def [symmetric] scale_def round_half_even_exact Let_def)
    with assms(4) show ?thesis by simp
  next
    case False
    with e0 have neg: "e < 0" by simp
    have eq: "v * q * 2 ^ nat (- e) = (v * 2 ^ nat (- e)) * q" by simp
    have "round_half_even (v * q * 2 ^ nat (- e)) q = v * 2 ^ nat (- e)"
      by (simp only: eq round_half_even_exact [OF assms(3)])
    then have "to_double (v * q) q = (v * 2 ^ nat (- e), 2 ^ nat (- e))"
      using pq neg assms(1,3)
      by (simp add: to_double_def e_def [symmetric] scale_def Let_def)
    with assms(4) show ?thesis by auto
  qed
qed

lemma float_ms_whole_seconds:
  assumes "0 \<le> n" and "n \<le> 1000000000"
  shows "float_ms (n * 1000000) = 1000 * n"
proof (cases "n = 0")
  case True
  then show ?thesis by (simp add: float_ms_0)
next
  case False
  with assms(1) have npos: "0 < n" by simp
  have n53: "n < 2 ^ 53" using assms(2) by simp
  obtain a b where ab: "to_double (n * 1000000) 1000000 = (a, b)"
    by (cases "to_double (n * 1000000) 1000000")
  have q6: "(0::int) < 1000000" by simp
  from to_double_exact [OF npos n53 q6 ab] have b: "0 < b" and a: "a = n * b" by simp_all
  have m53: "1000 * n < 2 ^ 53" using assms(2) by simp
  have mpos: "0 < 1000 * n" using npos by simp
  obtain a2 b2 where ab2: "to_double (1000 * a) b = (a2, b2)"
    by (cases "to_double (1000 * a) b")
  have p2: "1000 * a = (1000 * n) * b" by (simp add: a)
  have ab2': "to_double ((1000 * n) * b) b = (a2, b2)"
    using ab2 by (simp only: p2)
  from to_double_exact [OF mpos m53 b ab2'] have b2: "0 < b2" and a2: "a2 = 1000 * n * b2"
    by simp_all
  have "float_ms (n * 1000000) = a2 div b2"
    by (simp add: float_ms_def total_seconds_def ab ab2 Let_def)
  then show ?thesis using b2 by (simp add: a2)
qed


lemma duration_ms_minus: "duration_ms (- d) = - duration_ms d"
proof -
  consider "d < 0" | "d = 0" | "0 < d" by linarith
  then show ?thesis
    by cases (simp_all add: duration_ms_def float_ms_0)
qed

lemma apply_trace:
  "fst (LampState_apply s lights d w) = Inr ()
   \<and> trace (snd (LampState_apply s lights d w)) = trace w @
       (if ls_power s
        then [GroupSetPower (map mac_addr lights) ''on'' (duration_ms d), Sleep 250000,
              GroupSetColor (map mac_addr lights) (ls_color s) (duration_ms d)]
        else [GroupSetColor (map mac_addr lights) (ls_color s) (duration_ms d), Sleep 250000,
              GroupSetPower (map mac_addr lights) ''off'' (duration_ms d)])"
  by (simp add: LampState_apply_def time_sleep_def group_set_power_def group_set_color_def
      Let_def)

text \<open>
  C7, as stated, fails for a fade of 1.001 seconds: it is 1001 milliseconds, and both
  commands carry 1000, because \<^verbatim>\<open>1000 * 1.001\<close> is a double just below 1001.
\<close>

theorem apply_fade_counterexample:
  "trace (snd (LampState_apply state_evening [Device ''aa''] 1001000 world0))
     = [GroupSetPower [''aa''] ''on'' 1000, Sleep 250000,
        GroupSetColor [''aa''] COLOR_NEUTRAL_LIGHT 1000]
   \<and> (1001000::int) div 1000 = 1001"
proof -
  have "duration_ms 1001000 = 1000"
    by (simp add: duration_ms_def float_ms_1001000)
  then show ?thesis
    by (simp add: apply_trace state_evening_def world0_def)
qed

text \<open>
  C7, amended: for every lamp state, group, fade and world, apply returns normally and
  sends exactly two commands to the group with a sleep of a quarter of a second between
  them: power then color when the state's power is on, color then power when it is off.
  Both carry the same fade value, \<^verbatim>\<open>int(1000 * duration.total_seconds())\<close> in doubles. For
  a fade from 0 to \<open>10^15\<close> microseconds that value is the fade's whole milliseconds or
  one less, and it is the whole milliseconds whenever the fade is not a whole number of
  milliseconds; a fade of up to \<open>10^9\<close> whole seconds is sent exactly; the value of a
  negated fade is the negated value; a fade of 1.001 seconds is sent as 1000.
\<close>

theorem apply_command_order:
  "fst (LampState_apply s lights d w) = Inr ()
   \<and> trace (snd (LampState_apply s lights d w)) = trace w @
       (if ls_power s
        then [GroupSetPower (map mac_addr lights) ''on'' (duration_ms d), Sleep 250000,
              GroupSetColor (map mac_addr lights) (ls_color s) (duration_ms d)]
        else [GroupSetColor (map mac_addr lights) (ls_color s) (duration_ms d), Sleep 250000,
              GroupSetPower (map mac_addr lights) ''off'' (duration_ms d)])
   \<and> (0 \<le> d \<and> d \<le> 1000000000000000 \<longrightarrow>
        d div 1000 - 1 \<le> duration_ms d \<and> duration_ms d \<le> d div 1000
        \<and> (d mod 1000 \<noteq> 0 \<longrightarrow> duration_ms d = d div 1000))
   \<and> (0 \<le> n \<and> n \<le> 1000000000 \<longrightarrow> duration_ms (seconds n) = 1000 * n)
   \<and> duration_ms (- d) = - duration_ms d
   \<and> duration_ms 1001000 = 1000"
proof -
  have bounds: "0 \<le> d \<and> d \<le> 1000000000000000 \<longrightarrow>
        d div 1000 - 1 \<le> duration_ms d \<and> duration_ms d \<le> d div 1000
        \<and> (d mod 1000 \<noteq> 0 \<longrightarrow> duration_ms d = d div 1000)"
  proof (intro impI)
    assume r: "0 \<le> d \<and> d \<le> 1000000000000000"
    show "d div 1000 - 1 \<le> duration_ms d \<and> duration_ms d \<le> d div 1000
        \<and> (d mod 1000 \<noteq> 0 \<longrightarrow> duration_ms d = d div 1000)"
    proof (cases "d = 0")
      case True
      then show ?thesis by (simp add: duration_ms_def float_ms_0)
    next
      case False
      with r have "0 < d" and "d \<le> 1000000000000000" by simp_all
      from float_ms_bounds [OF this] \<open>0 < d\<close> show ?thesis
        by (simp add: duration_ms_def)
    qed
  qed
  have whole: "0 \<le> n \<and> n \<le> 1000000000 \<longrightarrow> duration_ms (seconds n) = 1000 * n"
  proof (intro impI)
    assume r: "0 \<le> n \<and> n \<le> 1000000000"
    then have "float_ms (n * 1000000) = 1000 * n"
      by (intro float_ms_whole_seconds) simp_all
    then show "duration_ms (seconds n) = 1000 * n"
      using r by (simp add: duration_ms_def seconds_def)
  qed
  have point: "duration_ms 1001000 = 1000"
    by (simp add: duration_ms_def float_ms_1001000)
  from apply_trace [of s lights d w] bounds whole duration_ms_minus [of d] point show ?thesis
    by blast
qed

theorem apply_command_order_witness:
  "(0::int) \<le> 1234567 \<and> (1234567::int) \<le> 1000000000000000 \<and> (1234567::int) mod 1000 \<noteq> 0
   \<and> (0::int) \<le> 300 \<and> (300::int) \<le> 1000000000
   \<and> duration_ms 1234567 = 1234
   \<and> duration_ms (seconds 300) = 1000 * 300
   \<and> trace (snd (LampState_apply state_off [Device ''aa''] 1234567 world0))
       = trace world0
         @ [GroupSetColor [''aa''] COLOR_NIGHT_LIGHT 1234, Sleep 250000,
            GroupSetPower [''aa''] ''off'' 1234]"
proof -
  note t = apply_command_order [of state_off "[Device ''aa'']" 1234567 world0 300]
  have h1: "(0::int) \<le> 1234567 \<and> (1234567::int) \<le> 1000000000000000" by simp
  have h2: "(1234567::int) mod 1000 \<noteq> 0" by simp
  have h3: "(0::int) \<le> 300 \<and> (300::int) \<le> 1000000000" by simp
  from t h1 h2 have "duration_ms 1234567 = 1234567 div 1000" by blast
  then have ms: "duration_ms 1234567 = 1234" by simp
  from t h3 have whole: "duration_ms (seconds 300) = 1000 * 300" by blast
  from t have "trace (snd (LampState_apply state_off [Device ''aa''] 1234567 world0))
      = trace world0 @
       (if ls_power state_off
        then [GroupSetPower (map mac_addr [Device ''aa'']) ''on'' (duration_ms 1234567),
              Sleep 250000,
              GroupSetColor (map mac_addr [Device ''aa'']) (ls_color state_off)
                (duration_ms 1234567)]
        else [GroupSetColor (map mac_addr [Device ''aa'']) (ls_color state_off)
                (duration_ms 1234567), Sleep 250000,
              GroupSetPower (map mac_addr [Device ''aa'']) ''off'' (duration_ms 1234567)])"
    by blast
  then have tr: "trace (snd (LampState_apply state_off [Device ''aa''] 1234567 world0))
       = trace world0
         @ [GroupSetColor [''aa''] COLOR_NIGHT_LIGHT 1234, Sleep 250000,
            GroupSetPower [''aa''] ''off'' 1234]"
    by (simp only: ms) (simp add: state_off_def)
  from h1 h2 h3 ms whole tr show ?thesis by blast
qed

section \<open>The sunset lookup when the request fails\<close>

lemma request_trace:
  "snd (request_sunrise_sunset e lat lng date w)
     = w\<lparr>trace := trace w @ [HttpGet lat lng (date div days 1)]\<rparr>"
  by (simp add: request_sunrise_sunset_def Let_def)

text \<open>
  C1 does not hold of the code: whenever the request raises an exception that the handler
  catches, the handler itself raises TypeError, because it passes the bound method
  \<^verbatim>\<open>date.astimezone().date\<close> to \<^verbatim>\<open>datetime.combine\<close>. No default is returned.
\<close>

theorem fallback_raises_TypeError:
  "fst (request_sunrise_sunset e lat lng date w) = Inl ex \<Longrightarrow> is_Exception ex \<Longrightarrow>
     fst (get_sunset_or_default e lat lng date w) = Inl TypeError"
  by (cases "request_sunrise_sunset e lat lng date w")
    (simp add: get_sunset_or_default_def utc_datetime_def Let_def)

theorem fallback_raises_TypeError_witness:
  "fst (request_sunrise_sunset offline_env LATITUDE LONGITUDE 0 world0) = Inl RequestException
   \<and> is_Exception RequestException
   \<and> fst (get_sunset_or_default offline_env LATITUDE LONGITUDE 0 world0) = Inl TypeError"
proof -
  have h1: "fst (request_sunrise_sunset offline_env LATITUDE LONGITUDE 0 world0)
              = Inl RequestException"
    by (simp add: request_sunrise_sunset_def offline_env_def bind_err_def Let_def)
  have h2: "is_Exception RequestException"
    by (simp add: is_Exception_def)
  from fallback_raises_TypeError [OF h1 h2] h1 h2 show ?thesis by simp
qed

section \<open>The main loop and the operator's interrupt\<close>

text \<open>An interrupt raised in the \<^verbatim>\<open>try\<close> body, while awaiting or while triggering, reaches the
  \<^verbatim>\<open>except KeyboardInterrupt\<close> clause: the restore runs and the loop is left.\<close>

lemma interrupt_while_awaiting:
  "loop_body e (Some Awaiting) devices saved_states ctrl_group q w =
     (case reset_device_states devices saved_states w of
        (Inr u, w') \<Rightarrow> (Break, q, w')
      | (Inl ex, w') \<Rightarrow> (Raise ex, q, w'))"
  by (simp add: loop_body_def try_block_def)

lemma interrupt_while_triggering:
  "Timeline_pop None q w = (Inr ev, q', w') \<Longrightarrow>
   loop_body e (Some Triggering) devices saved_states ctrl_group q w =
     (case reset_device_states devices saved_states w' of
        (Inr u, w'') \<Rightarrow> (Break, q', w'')
      | (Inl ex, w'') \<Rightarrow> (Raise ex, q', w''))"
  by (simp add: loop_body_def try_block_def)

text \<open>
  C2 does not hold of the code: the refill runs inside the \<^verbatim>\<open>except IndexError\<close> clause, so
  an interrupt raised there is caught by no clause. The loop is left by the exception
  and the world is unchanged: no restore command was sent.
\<close>

theorem interrupt_in_refill_skips_restore:
  "loop_body e (Some Refilling) devices saved_states ctrl_group [] w
     = (Raise KeyboardInterrupt, [], w)
   \<and> main_loop (Suc fuel) e (\<lambda>k. Some Refilling) k devices saved_states ctrl_group [] w
     = Some (Raise KeyboardInterrupt, [], w)
   \<and> main_run (Suc fuel) e (\<lambda>k. Some Refilling) devices w
     = Some (Raise KeyboardInterrupt, [], w)"
  by (simp add: main_run_def loop_body_def try_block_def Timeline_pop_def)

section \<open>next_sunset: today's sunset or tomorrow's\<close>

lemma days_1: "days 1 = 86400000000"
  by (simp add: days_def hours_def minutes_def seconds_def)

lemma days_n: "days n = n * 86400000000"
  by (simp add: days_def hours_def minutes_def seconds_def)

lemma get_sunset_world:
  "snd (get_sunset_or_default e lat lng date w)
     = w\<lparr>trace := trace w @ [HttpGet lat lng (date div days 1)]\<rparr>"
proof -
  obtain r w' where rq: "request_sunrise_sunset e lat lng date w = (r, w')"
    by (cases "request_sunrise_sunset e lat lng date w")
  with request_trace [of e lat lng date w]
  have w': "w' = w\<lparr>trace := trace w @ [HttpGet lat lng (date div days 1)]\<rparr>" by simp
  show ?thesis using rq w'
    by (cases r) (auto simp: get_sunset_or_default_def Let_def split: prod.splits)
qed

lemma tomorrow_date: "(t + days 1) div days 1 = t div days 1 + 1"
  by (simp add: days_1)

text \<open>
  C9, amended: when the lookup for today's UTC date returns a sunset, that lookup made
  one request; if the sunset is strictly after now, next_sunset returns it (an instant
  strictly in the future) and makes no further request; otherwise next_sunset makes a
  second request, for the next UTC date, and returns what that lookup yields, whatever
  its relation to now.
\<close>

theorem next_sunset_today_or_tomorrow:
  assumes "get_sunset_or_default e lat lng (clock w) w = (Inr today, w1)"
  shows "trace w1 = trace w @ [HttpGet lat lng (clock w div days 1)]
         \<and> (clock w < today \<longrightarrow> next_sunset e lat lng w = (Inr today, w1))
         \<and> (today \<le> clock w \<longrightarrow>
              next_sunset e lat lng w = get_sunset_or_default e lat lng (clock w + days 1) w1
              \<and> trace (snd (next_sunset e lat lng w))
                  = trace w @ [HttpGet lat lng (clock w div days 1),
                               HttpGet lat lng (clock w div days 1 + 1)])"
proof -
  have w1: "w1 = w\<lparr>trace := trace w @ [HttpGet lat lng (clock w div days 1)]\<rparr>"
    using get_sunset_world [of e lat lng "clock w" w] assms by simp
  have a: "clock w < today \<Longrightarrow> next_sunset e lat lng w = (Inr today, w1)"
    using assms by (simp add: next_sunset_def utc_now_def Let_def)
  have b: "today \<le> clock w \<Longrightarrow>
      next_sunset e lat lng w = get_sunset_or_default e lat lng (clock w + days 1) w1"
    using assms by (simp add: next_sunset_def utc_now_def Let_def)
  have c: "trace (snd (get_sunset_or_default e lat lng (clock w + days 1) w1))
      = trace w @ [HttpGet lat lng (clock w div days 1),
                               HttpGet lat lng (clock w div days 1 + 1)]"
    by (simp add: get_sunset_world tomorrow_date w1)
  show ?thesis using w1 a b c by simp
qed

lemma winter_today:
  "get_sunset_or_default (winter_env off) lat lng 0 world0
     = (Inr (hours 21 + minutes 20), world0\<lparr>trace := [HttpGet lat lng 0]\<rparr>)"
  by (simp add: get_sunset_or_default_def request_sunrise_sunset_def winter_env_def answer_def
      bind_err_def subscript_def parse_time_def iso_table_def world0_def Let_def)

theorem next_sunset_today_or_tomorrow_witness:
  "get_sunset_or_default (winter_env (hours (- 5))) LATITUDE LONGITUDE (clock world0) world0
     = (Inr (hours 21 + minutes 20), world0\<lparr>trace := [HttpGet LATITUDE LONGITUDE 0]\<rparr>)
   \<and> clock world0 < hours 21 + minutes 20
   \<and> next_sunset (winter_env (hours (- 5))) LATITUDE LONGITUDE world0
     = (Inr (hours 21 + minutes 20), world0\<lparr>trace := [HttpGet LATITUDE LONGITUDE 0]\<rparr>)"
proof -
  have c: "clock world0 = 0" by (simp add: world0_def)
  have h: "get_sunset_or_default (winter_env (hours (- 5))) LATITUDE LONGITUDE (clock world0) world0
     = (Inr (hours 21 + minutes 20), world0\<lparr>trace := [HttpGet LATITUDE LONGITUDE 0]\<rparr>)"
    by (simp only: c winter_today)
  have l: "clock world0 < hours 21 + minutes 20"
    by (simp add: c hours_def minutes_def seconds_def)
  from next_sunset_today_or_tomorrow [OF h] h l show ?thesis by simp
qed

text \<open>
  C9, as stated, fails where the service answers both requests with an instant that is
  not after now: next_sunset returns tomorrow's answer unchecked.
\<close>

theorem next_sunset_past_counterexample:
  "fst (next_sunset epoch_env LATITUDE LONGITUDE (world_at (days 19000))) = Inr (seconds 1)
   \<and> \<not> clock (world_at (days 19000)) < seconds 1"
  by (simp add: next_sunset_def get_sunset_or_default_def request_sunrise_sunset_def
      epoch_env_def answer_def bind_err_def subscript_def parse_time_def iso_table_def
      world_at_def world0_def utc_now_def Let_def days_n seconds_def)

section \<open>fill_timeline: the three events of a day\<close>

lemma fixed_zone_order:
  "(s - minutes 30 < local_to_utc (fixed_zone off) (days (utc_to_local (fixed_zone off) s div days 1) + hours 21))
     = ((s + off) mod days 1 < hours 21 + minutes 30)"
proof -
  define x where "x = s + off"
  have d: "x = (x div 86400000000) * 86400000000 + x mod 86400000000"
    by simp
  have "(x - 1800000000 < (x div 86400000000) * 86400000000 + 75600000000)
          = (x mod 86400000000 < 77400000000)"
    using d by linarith
  then show ?thesis
    by (simp add: fixed_zone_def days_n hours_def minutes_def seconds_def x_def algebra_simps)
qed

text \<open>
  C3, amended: whenever the sunset lookup returns a sunset, fill_timeline returns
  normally and inserts exactly three events: Evening at the sunset minus 30 minutes,
  Nightime at 21:00 on the wall clock of the sunset's local date, Lights Off three hours
  after Nightime. Nightime is strictly before Lights Off in every zone. In a zone at a
  fixed offset from UTC, Evening is strictly before Nightime exactly when the sunset's
  local time of day is before 21:30.
\<close>

theorem fill_timeline_three_events:
  assumes "next_sunset e LATITUDE LONGITUDE w = (Inr sunset, w')"
  shows "\<exists>evening nighttime lightsoff.
           fill_timeline e q w
             = (Inr (), Timeline_insert lightsoff
                          (Timeline_insert nighttime (Timeline_insert evening q)), w')
         \<and> mset (fst (snd (fill_timeline e q w))) = mset q + {#evening, nighttime, lightsoff#}
         \<and> name evening = ''Evening'' \<and> name nighttime = ''Nightime''
         \<and> name lightsoff = ''Lights Off''
         \<and> time evening = sunset - minutes 30
         \<and> time nighttime
             = local_to_utc (tz e) (days (utc_to_local (tz e) sunset div days 1) + hours 21)
         \<and> time lightsoff = time nighttime + hours 3
         \<and> time nighttime < time lightsoff
         \<and> (\<forall>off. tz e = fixed_zone off \<longrightarrow>
               (time evening < time nighttime) = ((sunset + off) mod days 1 < hours 21 + minutes 30))"
proof -
  define nt where
    "nt = local_to_utc (tz e) (days (utc_to_local (tz e) sunset div days 1) + hours 21)"
  define evening where
    "evening = \<lparr>name = ''Evening'', time = sunset + SUNSET_OFFSET, state = state_evening,
                 fade = TRANSITION_DURATION\<rparr>"
  define nighttime where
    "nighttime = \<lparr>name = ''Nightime'', time = nt, state = state_night,
                   fade = TRANSITION_DURATION\<rparr>"
  define lightsoff where
    "lightsoff = \<lparr>name = ''Lights Off'', time = nt + hours 3, state = state_off,
                   fade = TRANSITION_DURATION\<rparr>"
  have run: "fill_timeline e q w
      = (Inr (), Timeline_insert lightsoff
                   (Timeline_insert nighttime (Timeline_insert evening q)), w')"
    using assms
    by (simp add: fill_timeline_def utc_datetime_def Let_def nt_def evening_def nighttime_def
        lightsoff_def)
  have ms: "mset (fst (snd (fill_timeline e q w))) = mset q + {#evening, nighttime, lightsoff#}"
    by (simp add: run mset_Timeline_insert)
  have off30: "sunset + SUNSET_OFFSET = sunset - minutes 30"
    by (simp add: SUNSET_OFFSET_def minutes_def seconds_def)
  have pos: "nt < nt + hours 3"
    by (simp add: hours_def minutes_def seconds_def)
  have fz: "\<forall>off. tz e = fixed_zone off \<longrightarrow>
      (sunset - minutes 30 < nt) = ((sunset + off) mod days 1 < hours 21 + minutes 30)"
  proof (intro allI impI)
    fix off assume z: "tz e = fixed_zone off"
    show "(sunset - minutes 30 < nt) = ((sunset + off) mod days 1 < hours 21 + minutes 30)"
      using fixed_zone_order [of sunset off] by (simp add: nt_def z)
  qed
  have names: "name evening = ''Evening'' \<and> name nighttime = ''Nightime''
         \<and> name lightsoff = ''Lights Off''"
    by (simp add: evening_def nighttime_def lightsoff_def)
  have times: "time evening = sunset - minutes 30 \<and> time nighttime = nt
      \<and> time lightsoff = time nighttime + hours 3"
    by (simp add: evening_def nighttime_def lightsoff_def off30)
  show ?thesis
    apply (rule exI [of _ evening], rule exI [of _ nighttime], rule exI [of _ lightsoff])
    using run ms names times pos fz unfolding nt_def [symmetric]
    by simp
qed


lemma winter_next_sunset:
  "next_sunset (winter_env off) lat lng world0
     = (Inr (hours 21 + minutes 20), world0\<lparr>trace := [HttpGet lat lng 0]\<rparr>)"
proof -
  have c: "utc_now world0 = 0" by (simp add: utc_now_def world0_def)
  have l: "(0::int) < hours 21 + minutes 20" by (simp add: hours_def minutes_def seconds_def)
  show ?thesis
    unfolding next_sunset_def c Let_def winter_today using l by simp
qed

theorem fill_timeline_three_events_witness:
  "next_sunset (winter_env (hours (- 5))) LATITUDE LONGITUDE world0
     = (Inr (hours 21 + minutes 20), world0\<lparr>trace := [HttpGet LATITUDE LONGITUDE 0]\<rparr>)
   \<and> (\<exists>evening nighttime lightsoff.
         fill_timeline (winter_env (hours (- 5))) [] world0
           = (Inr (), Timeline_insert lightsoff
                        (Timeline_insert nighttime (Timeline_insert evening [])),
              world0\<lparr>trace := [HttpGet LATITUDE LONGITUDE 0]\<rparr>)
         \<and> time evening < time nighttime \<and> time nighttime < time lightsoff)"
proof -
  have h: "next_sunset (winter_env (hours (- 5))) LATITUDE LONGITUDE world0
     = (Inr (hours 21 + minutes 20), world0\<lparr>trace := [HttpGet LATITUDE LONGITUDE 0]\<rparr>)"
    by (rule winter_next_sunset)
  have z: "tz (winter_env (hours (- 5))) = fixed_zone (hours (- 5))"
    by (simp add: winter_env_def)
  have m: "(hours 21 + minutes 20 + hours (- 5)) mod days 1 < hours 21 + minutes 30"
    by (simp add: days_n hours_def minutes_def seconds_def)
  from fill_timeline_three_events [OF h, of "[]"] z m h show ?thesis
    by blast
qed

text \<open>
  C3, as stated, fails for a sunset at 21:20 UTC read on a machine one hour east of UTC
  (22:20 local): Evening falls at 20:50 UTC, after Nightime at 20:00 UTC (21:00 local).
\<close>

theorem fill_timeline_order_counterexample:
  "map name (fst (snd (fill_timeline (winter_env (hours 1)) [] world0)))
     = [''Nightime'', ''Evening'', ''Lights Off'']
   \<and> map time (fst (snd (fill_timeline (winter_env (hours 1)) [] world0)))
     = [hours 20, hours 20 + minutes 50, hours 23]"
  unfolding fill_timeline_def winter_next_sunset
  by (simp add: utc_datetime_def Timeline_insert_def winter_env_def fixed_zone_def
      SUNSET_OFFSET_def days_n hours_def minutes_def seconds_def Let_def)

section \<open>Restoring the devices\<close>

lemma reset_one_trace: "trace (reset_one dev s w) = trace w @ restore_commands dev s w"
  by (simp add: reset_one_def restore_commands_def set_power_def set_color_def
      get_power_def get_color_def Let_def)

lemma reset_one_lamp: "lamps (reset_one dev s w) (mac_addr dev) = snd s"
  by (cases s)
    (auto simp: reset_one_def set_power_def set_color_def get_power_def get_color_def Let_def
      prod_eq_iff)

lemma reset_one_other:
  "m \<noteq> mac_addr dev \<Longrightarrow> lamps (reset_one dev s w) m = lamps w m"
  by (simp add: reset_one_def set_power_def set_color_def Let_def)

lemma restore_commands_cong:
  "lamps w' (mac_addr dev) = lamps w (mac_addr dev) \<Longrightarrow>
     restore_commands dev s w' = restore_commands dev s w"
  by (simp add: restore_commands_def get_power_def get_color_def)

lemma reset_one_ignores_mac: "reset_one dev (a, pc) w = reset_one dev (b, pc) w"
  by (simp add: reset_one_def)

lemma reset_from_ignores_mac:
  "reset_from i devs (map (\<lambda>s. (f (fst s), snd s)) saved) w = reset_from i devs saved w"
proof (induction devs arbitrary: i w)
  case Nil
  show ?case by simp
next
  case (Cons dev devs)
  have "i < length saved \<Longrightarrow>
      reset_one dev (f (fst (saved ! i)), snd (saved ! i)) w = reset_one dev (saved ! i) w"
    using reset_one_ignores_mac [of dev "f (fst (saved ! i))" "snd (saved ! i)" w "fst (saved ! i)"]
    by simp
  then show ?case using Cons.IH by simp
qed

lemma reset_from_run:
  "distinct (map mac_addr devs) \<Longrightarrow> i + length devs \<le> length saved \<Longrightarrow>
   \<exists>w'. reset_from i devs saved w = (Inr (), w')
     \<and> trace w' = trace w
          @ concat (map (\<lambda>(dev, s). restore_commands dev s w) (zip devs (drop i saved)))
     \<and> (\<forall>j < length devs. lamps w' (mac_addr (devs ! j)) = snd (saved ! (i + j)))
     \<and> (\<forall>m. m \<notin> mac_addr ` set devs \<longrightarrow> lamps w' m = lamps w m)"
proof (induction devs arbitrary: i w)
  case Nil
  show ?case by simp
next
  case (Cons dev devs)
  let ?w1 = "reset_one dev (saved ! i) w"
  have i: "i < length saved" using Cons.prems by simp
  have d: "distinct (map mac_addr devs)" and fresh: "mac_addr dev \<notin> mac_addr ` set devs"
    using Cons.prems by auto
  have len: "Suc i + length devs \<le> length saved" using Cons.prems by simp
  from Cons.IH [OF d len, of ?w1] obtain w' where
    run: "reset_from (Suc i) devs saved ?w1 = (Inr (), w')"
    and tr: "trace w' = trace ?w1
          @ concat (map (\<lambda>(dev, s). restore_commands dev s ?w1) (zip devs (drop (Suc i) saved)))"
    and lp: "\<forall>j < length devs. lamps w' (mac_addr (devs ! j)) = snd (saved ! (Suc i + j))"
    and other: "\<forall>m. m \<notin> mac_addr ` set devs \<longrightarrow> lamps w' m = lamps ?w1 m"
    by blast
  have same: "map (\<lambda>(dev, s). restore_commands dev s ?w1) (zip devs (drop (Suc i) saved))
      = map (\<lambda>(dev, s). restore_commands dev s w) (zip devs (drop (Suc i) saved))"
  proof (rule map_cong [OF refl])
    fix p assume p: "p \<in> set (zip devs (drop (Suc i) saved))"
    obtain d0 s0 where p0: "p = (d0, s0)" by (cases p)
    with p have "d0 \<in> set devs" by (auto dest: set_zip_leftD)
    then have "mac_addr d0 \<noteq> mac_addr dev" using fresh by (metis imageI)
    then have "restore_commands d0 s0 ?w1 = restore_commands d0 s0 w"
      by (intro restore_commands_cong reset_one_other)
    then show "(case p of (dev, s) \<Rightarrow> restore_commands dev s ?w1)
        = (case p of (dev, s) \<Rightarrow> restore_commands dev s w)"
      by (simp add: p0)
  qed
  have dr: "drop i saved = saved ! i # drop (Suc i) saved"
    using i by (simp add: Cons_nth_drop_Suc)
  have r1: "reset_from i (dev # devs) saved w = (Inr (), w')"
    using i run by simp
  have r2: "trace w' = trace w
          @ concat (map (\<lambda>(dev, s). restore_commands dev s w) (zip (dev # devs) (drop i saved)))"
    by (simp add: tr same dr reset_one_trace)
  have r3: "\<forall>j < length (dev # devs). lamps w' (mac_addr ((dev # devs) ! j)) = snd (saved ! (i + j))"
  proof (intro allI impI)
    fix j assume j: "j < length (dev # devs)"
    show "lamps w' (mac_addr ((dev # devs) ! j)) = snd (saved ! (i + j))"
    proof (cases j)
      case 0
      then show ?thesis using other fresh by (simp add: reset_one_lamp)
    next
      case (Suc k)
      then show ?thesis using lp j by simp
    qed
  qed
  have r4: "\<forall>m. m \<notin> mac_addr ` set (dev # devs) \<longrightarrow> lamps w' m = lamps w m"
    using other by (simp add: reset_one_other)
  from r1 r2 r3 r4 show ?case by blast
qed

text \<open>
  C8: for devices with distinct addresses and a saved list that has an entry for each of
  them, the restore returns normally and what it sends is, device by device in list
  order, exactly the commands of \<open>restore_commands\<close> for the device and the entry at its
  index: nothing when power and color both equal the saved ones, one set-power command
  exactly when the power differs, one set-color command exactly when the color differs.
\<close>

theorem restore_sends_what_differs:
  assumes "distinct (map mac_addr devices)" and "length devices \<le> length saved_states"
  shows "\<exists>w'. reset_device_states devices saved_states w = (Inr (), w')
           \<and> trace w' = trace w
               @ concat (map (\<lambda>(dev, s). restore_commands dev s w) (zip devices saved_states))"
  using reset_from_run [of devices 0 saved_states w] assms
  by (auto simp: reset_device_states_def)

text \<open>
  C10: the restore pairs devices and entries by index. For devices with distinct addresses
  and a saved list with an entry for each, the device at index \<open>i\<close> ends with the power
  and color of the entry at index \<open>i\<close>; the address recorded in an entry plays no part
  (replacing the recorded addresses by any others gives the same run); and when the saved
  list is the capture of the very same device list, every device ends in its captured
  state. The witness restores a two-device capture over the reversed list: each lamp
  ends in the other's state.
\<close>

theorem restore_pairs_by_position:
  assumes "distinct (map mac_addr devices)" and "length devices \<le> length saved_states"
  shows "\<exists>w'. reset_device_states devices saved_states w = (Inr (), w')
           \<and> (\<forall>i < length devices. lamps w' (mac_addr (devices ! i)) = snd (saved_states ! i))
           \<and> reset_device_states devices (map (\<lambda>s. (f (fst s), snd s)) saved_states) w
               = (Inr (), w')
           \<and> (saved_states = save_current_states devices w0 \<longrightarrow>
                (\<forall>dev \<in> set devices. lamps w' (mac_addr dev) = lamps w0 (mac_addr dev)))"
proof -
  from reset_from_run [of devices 0 saved_states w] assms obtain w' where
    run: "reset_device_states devices saved_states w = (Inr (), w')"
    and lp: "\<forall>i < length devices. lamps w' (mac_addr (devices ! i)) = snd (saved_states ! i)"
    by (auto simp: reset_device_states_def)
  have ig: "reset_device_states devices (map (\<lambda>s. (f (fst s), snd s)) saved_states) w
               = (Inr (), w')"
    using run by (simp add: reset_device_states_def reset_from_ignores_mac)
  have same: "saved_states = save_current_states devices w0 \<longrightarrow>
                (\<forall>dev \<in> set devices. lamps w' (mac_addr dev) = lamps w0 (mac_addr dev))"
  proof (intro impI ballI)
    fix dev assume s: "saved_states = save_current_states devices w0" and m: "dev \<in> set devices"
    from m obtain i where i: "i < length devices" and di: "devices ! i = dev"
      by (auto simp: in_set_conv_nth)
    have "snd (saved_states ! i) = lamps w0 (mac_addr dev)"
      using i di by (simp add: s save_current_states_def get_power_def get_color_def)
    then show "lamps w' (mac_addr dev) = lamps w0 (mac_addr dev)"
      using lp i di by auto
  qed
  from run lp ig same show ?thesis by blast
qed


theorem restore_sends_what_differs_witness:
  "distinct (map mac_addr [Device ''aa'', Device ''bb''])
   \<and> length [Device ''aa'', Device ''bb'']
       \<le> length [(''aa'', 0, (0, 0, 100, 2500)), (''bb'', 0, (0, 0, 900, 6500)) :: saved_state]
   \<and> (\<exists>w'. reset_device_states [Device ''aa'', Device ''bb'']
               [(''aa'', 0, (0, 0, 100, 2500)), (''bb'', 0, (0, 0, 900, 6500))] two_lamps
             = (Inr (), w')
           \<and> trace w' = [DeviceSetPower ''bb'' 0])"
proof -
  have h1: "distinct (map mac_addr [Device ''aa'', Device ''bb''])" by simp
  have h2: "length [Device ''aa'', Device ''bb'']
       \<le> length [(''aa'', 0, (0, 0, 100, 2500)), (''bb'', 0, (0, 0, 900, 6500)) :: saved_state]"
    by simp
  from restore_sends_what_differs [OF h1 h2, of two_lamps] h1 h2 show ?thesis
    by (simp add: restore_commands_def get_power_def get_color_def two_lamps_def)
qed

theorem restore_pairs_by_position_witness:
  "distinct (map mac_addr [Device ''bb'', Device ''aa''])
   \<and> length [Device ''bb'', Device ''aa'']
       \<le> length (save_current_states [Device ''aa'', Device ''bb''] two_lamps)
   \<and> (\<exists>w'. reset_device_states [Device ''bb'', Device ''aa'']
               (save_current_states [Device ''aa'', Device ''bb''] two_lamps) two_lamps
             = (Inr (), w')
           \<and> lamps w' ''bb'' = lamps two_lamps ''aa''
           \<and> lamps w' ''aa'' = lamps two_lamps ''bb''
           \<and> lamps two_lamps ''aa'' \<noteq> lamps two_lamps ''bb'')"
proof -
  have h1: "distinct (map mac_addr [Device ''bb'', Device ''aa''])" by simp
  have h2: "length [Device ''bb'', Device ''aa'']
       \<le> length (save_current_states [Device ''aa'', Device ''bb''] two_lamps)"
    by (simp add: save_current_states_def)
  from restore_pairs_by_position [OF h1 h2, of two_lamps id world0] obtain w' where
    run: "reset_device_states [Device ''bb'', Device ''aa'']
               (save_current_states [Device ''aa'', Device ''bb''] two_lamps) two_lamps
             = (Inr (), w')"
    and lp: "\<forall>i < length [Device ''bb'', Device ''aa''].
        lamps w' (mac_addr ([Device ''bb'', Device ''aa''] ! i))
          = snd (save_current_states [Device ''aa'', Device ''bb''] two_lamps ! i)"
    by blast
  have "lamps w' (mac_addr ([Device ''bb'', Device ''aa''] ! 0))
          = snd (save_current_states [Device ''aa'', Device ''bb''] two_lamps ! 0)"
    using lp [rule_format, of 0] by simp
  then have a: "lamps w' ''bb'' = lamps two_lamps ''aa''"
    by (simp add: save_current_states_def get_power_def get_color_def)
  have "lamps w' (mac_addr ([Device ''bb'', Device ''aa''] ! 1))
          = snd (save_current_states [Device ''aa'', Device ''bb''] two_lamps ! 1)"
    using lp [rule_format, of 1] by simp
  then have b: "lamps w' ''aa'' = lamps two_lamps ''bb''"
    by (simp add: save_current_states_def get_power_def get_color_def)
  have c: "lamps two_lamps ''aa'' \<noteq> lamps two_lamps ''bb''"
    by (simp add: two_lamps_def)
  from h1 h2 run a b c show ?thesis by blast
qed

end
